theory Spec2Isabelle
  imports Complex_Main "HOL-Library.Option_ord"
begin

section \<open>Speculative sampling (sampling.py): the embedding\<close>

text \<open>
  Tensors have batch dimension 1 throughout (\<open>speculative_sampling\<close> asserts it), so a
  token tensor of shape (1, seq) is a \<open>nat list\<close>, a logit tensor of shape
  (1, seq, vocab) is a \<open>real list list\<close> (one row per position) and a slice
  \<open>t[:, pos, :]\<close> is a row. Tensor entries are real numbers: arithmetic is exact, and
  the two non-finite values the code can produce are written out, \<open>-inf\<close> (the filter)
  as \<open>None\<close> of \<open>real option\<close>, and a division by zero as a value of \<open>quotient\<close>.
  Every exception of the source is a value of \<open>error\<close>.

  The global torch generator is an explicit state \<open>'g\<close>. Its two operations are
  parameters of the model: \<open>multinomial probs g\<close> is \<open>torch.multinomial(probs, 1)\<close> and
  \<open>rand g\<close> is \<open>torch.rand(1)\<close>; each returns the value drawn and the next state.
  The two models are parameters too: a function from the token sequence to its logits.
\<close>

datatype error = RuntimeError | IndexError | UnboundLocalError | AssertionError

text \<open>The types of the parameters: the weighted draw, the uniform draw, a model.\<close>

type_synonym 'g sampler = "real list \<Rightarrow> 'g \<Rightarrow> nat \<times> 'g"
type_synonym 'g uniform = "'g \<Rightarrow> real \<times> 'g"
type_synonym token_model = "nat list \<Rightarrow> real list list"

text \<open>Indexing one dimension, \<open>t[i]\<close>: a negative index counts from the end.\<close>

definition item_at :: "'a list \<Rightarrow> int \<Rightarrow> error + 'a" where
  "item_at xs i =
     (let n = int (length xs); k = (if i < 0 then n + i else i)
      in if 0 \<le> k \<and> k < n then Inr (xs ! nat k) else Inl IndexError)"

text \<open>\<open>t[:, pos, j]\<close>: the entry for token \<open>j\<close> in the row at position \<open>pos\<close>.\<close>

definition entry_at :: "real list list \<Rightarrow> int \<Rightarrow> nat \<Rightarrow> error + real" where
  "entry_at t pos j =
     (case item_at t pos of Inl e \<Rightarrow> Inl e | Inr row \<Rightarrow> item_at row (int j))"

text \<open>A logit after filtering: \<open>None\<close> is \<open>-inf\<close>, below every \<open>Some v\<close>.\<close>

type_synonym logit = "real option"

definition exp_logit :: "logit \<Rightarrow> real" where
  "exp_logit l = (case l of None \<Rightarrow> 0 | Some v \<Rightarrow> exp v)"

text \<open>\<open>F.softmax\<close> along the last dimension.\<close>

definition softmax :: "logit list \<Rightarrow> real list" where
  "softmax ls = (let es = map exp_logit ls; s = sum_list es in map (\<lambda>e. e / s) es)"

text \<open>\<open>torch.topk(logits, k)[0]\<close>: the \<open>k\<close> largest values, largest first.\<close>

definition topk :: "logit list \<Rightarrow> int \<Rightarrow> logit list" where
  "topk ls k = take (nat k) (rev (sort ls))"

text \<open>
  \<open>torch.sort(logits, descending=True)[1]\<close>: the indices in descending order of their
  values (torch leaves the order of equal values open; here the later index comes first).
\<close>

definition sort_indices :: "logit list \<Rightarrow> nat list" where
  "sort_indices ls = rev (sort_key (\<lambda>i. ls ! i) [0..<length ls])"

fun cumsum_from :: "real \<Rightarrow> real list \<Rightarrow> real list" where
  "cumsum_from acc [] = []"
| "cumsum_from acc (x # xs) = (acc + x) # cumsum_from (acc + x) xs"

definition cumsum :: "real list \<Rightarrow> real list" where
  "cumsum xs = cumsum_from 0 xs"

text \<open>\<open>base.scatter(1, index, src)\<close>: a copy of \<open>base\<close> with \<open>out[index[k]] = src[k]\<close>.\<close>

definition scatter :: "bool list \<Rightarrow> nat list \<Rightarrow> bool list \<Rightarrow> bool list" where
  "scatter base index src = fold (\<lambda>(i, b) out. out[i := b]) (zip index src) base"

text \<open>Lines 18-20: the entries below the \<open>top_k\<close>-th largest value become \<open>-inf\<close>.\<close>

definition top_k_filter :: "logit list \<Rightarrow> int \<Rightarrow> error + logit list" where
  "top_k_filter logits top_k =
     (if top_k > 0 then
        (case item_at (topk logits (min top_k (int (length logits)))) (-1) of
           Inl e \<Rightarrow> Inl e
         | Inr kth \<Rightarrow> Inr (map (\<lambda>v. if v < kth then None else v) logits))
      else Inr logits)"

text \<open>
  Lines 21-29: in descending order, the entries after the first one whose cumulative
  probability exceeds \<open>top_p\<close> become \<open>-inf\<close>; the first entry is always kept.
  \<open>filter[..., 0] = 0\<close> raises on an empty vocabulary.
\<close>

definition top_p_filter :: "logit list \<Rightarrow> real \<Rightarrow> error + logit list" where
  "top_p_filter logits top_p =
     (if top_p > 0 then
        (let sorted_indices = sort_indices logits;
             sorted_logits = map (\<lambda>i. logits ! i) sorted_indices;
             cumulative_probs = cumsum (softmax sorted_logits);
             filter0 = map (\<lambda>c. c > top_p) cumulative_probs
         in if filter0 = [] then Inl IndexError
            else
              (let filter1 = False # butlast filter0;
                   indices_to_remove = scatter filter1 sorted_indices filter1
               in Inr (map2 (\<lambda>b v. if b then None else v) indices_to_remove logits)))
      else Inr logits)"

definition top_k_top_p_filter :: "logit list \<Rightarrow> int \<Rightarrow> real \<Rightarrow> error + logit list" where
  "top_k_top_p_filter logits top_k top_p =
     (case top_k_filter logits top_k of
        Inl e \<Rightarrow> Inl e
      | Inr logits1 \<Rightarrow> top_p_filter logits1 top_p)"

text \<open>
  Lines 43-45 of \<open>sample\<close>: the probability vector handed to \<open>torch.multinomial\<close>.
  The filter writes in place, but into the fresh tensor that the division returns, so no
  tensor of the caller changes.
  With temperature 0 every scaled logit is infinite or NaN, and with an empty vocabulary
  or no finite logit the softmax has no mass: \<open>torch.multinomial\<close> rejects such a
  vector with a RuntimeError.
\<close>

definition sample_probs :: "real list \<Rightarrow> real \<Rightarrow> int \<Rightarrow> real \<Rightarrow> error + real list" where
  "sample_probs logits temperature top_k top_p =
     (case top_k_top_p_filter (map (\<lambda>v. Some (v / temperature)) logits) top_k top_p of
        Inl e \<Rightarrow> Inl e
      | Inr filtered \<Rightarrow>
          if temperature = 0 \<or> sum_list (map exp_logit filtered) = 0 then Inl RuntimeError
          else Inr (softmax filtered))"

text \<open>Lines 46-49 of \<open>sample\<close>: the draw, and the check of the reserved id 0.\<close>

definition sample ::
  "'g sampler \<Rightarrow> real list \<Rightarrow> real \<Rightarrow> int \<Rightarrow> real \<Rightarrow> 'g \<Rightarrow> error + nat \<times> 'g"
where
  "sample multinomial logits temperature top_k top_p g =
     (case sample_probs logits temperature top_k top_p of
        Inl e \<Rightarrow> Inl e
      | Inr probs \<Rightarrow>
          (let (idx_next, g') = multinomial probs g
           in if idx_next = 0 then Inl RuntimeError else Inr (idx_next, g')))"

subsection \<open>autoregressive_sampling\<close>

text \<open>
  The while loop of lines 57-62, with the source's own counter \<open>n\<close>. \<open>len(x)\<close> of a
  (1, seq) tensor is its batch dimension, so \<open>n\<close> starts at 1 and \<open>T = 1 + N\<close>.
\<close>

function ar_loop ::
  "'g sampler \<Rightarrow> token_model \<Rightarrow> real \<Rightarrow> int \<Rightarrow> real \<Rightarrow>
   int \<Rightarrow> int \<Rightarrow> nat list \<Rightarrow> 'g \<Rightarrow> error + nat list \<times> int \<times> 'g"
where
  "ar_loop multinomial model temperature top_k top_p n T x g =
     (if n < T then
        (case item_at (model x) (-1) of
           Inl e \<Rightarrow> Inl e
         | Inr logits \<Rightarrow>
             (case sample multinomial logits temperature top_k top_p g of
                Inl e \<Rightarrow> Inl e
              | Inr (idx_next, g') \<Rightarrow>
                  ar_loop multinomial model temperature top_k top_p (n + 1) T
                    (x @ [idx_next]) g'))
      else Inr (x, n, g))"
  by pat_completeness auto
termination
  by (relation "measure (\<lambda>(multinomial, model, temperature, top_k, top_p, n, T, x, g).
                  nat (T - n))") auto

definition autoregressive_sampling ::
  "'g sampler \<Rightarrow> nat list \<Rightarrow> token_model \<Rightarrow> int \<Rightarrow>
   real \<Rightarrow> int \<Rightarrow> real \<Rightarrow> 'g \<Rightarrow> error + nat list \<times> 'g"
where
  "autoregressive_sampling multinomial x model N temperature top_k top_p g =
     (case ar_loop multinomial model temperature top_k top_p 1 (1 + N) x g of
        Inl e \<Rightarrow> Inl e
      | Inr (y, n, g') \<Rightarrow> Inr (y, g'))"

subsection \<open>speculative_sampling\<close>

text \<open>
  \<open>max_fn\<close>: the positive part, divided by its sum. When the sum is 0 every entry is
  0/0; \<open>None\<close> stands for that all-NaN tensor.
\<close>

definition max_fn :: "real list \<Rightarrow> real list option" where
  "max_fn x =
     (let x_max = map (\<lambda>v. if v > 0 then v else 0) x;
          x_max_sum = sum_list x_max
      in if x_max_sum = 0 \<and> x \<noteq> [] then None
         else Some (map (\<lambda>v. v / x_max_sum) x_max))"

definition norm_logits :: "real list list \<Rightarrow> real list list" where
  "norm_logits p = map (\<lambda>row. softmax (map Some row)) p"

text \<open>
  \<open>a - b\<close> on two rows, with torch's broadcasting of a row of size 1; rows of other
  different sizes raise a RuntimeError.
\<close>

definition row_sub :: "real list \<Rightarrow> real list \<Rightarrow> error + real list" where
  "row_sub a b =
     (if length a = length b then Inr (map2 (\<lambda>u v. u - v) a b)
      else if length b = 1 then Inr (map (\<lambda>u. u - hd b) a)
      else if length a = 1 then Inr (map (\<lambda>v. hd a - v) b)
      else Inl RuntimeError)"

text \<open>
  The value of \<open>p / q\<close> on two finite numbers. A tensor division by zero raises
  nothing: it is \<open>+inf\<close>, \<open>-inf\<close> or NaN. \<open>r > inf\<close> and \<open>r > nan\<close> are both false.
\<close>

datatype quotient = Finite real | PosInf | NegInf | NaN

definition tensor_div :: "real \<Rightarrow> real \<Rightarrow> quotient" where
  "tensor_div a b =
     (if b \<noteq> 0 then Finite (a / b)
      else if a > 0 then PosInf else if a < 0 then NegInf else NaN)"

fun greater_than :: "real \<Rightarrow> quotient \<Rightarrow> bool" where
  "greater_than r (Finite v) = (r > v)"
| "greater_than r PosInf = False"
| "greater_than r NegInf = True"
| "greater_than r NaN = False"

text \<open>
  The draft loop of lines 104-109, \<open>c\<close> counting the iterations left. \<open>q\<close> is
  \<open>None\<close> as long as the local variable is unbound.
\<close>

primrec draft_loop ::
  "'g sampler \<Rightarrow> token_model \<Rightarrow> real \<Rightarrow> int \<Rightarrow> real \<Rightarrow>
   nat \<Rightarrow> nat list \<Rightarrow> real list list option \<Rightarrow> 'g \<Rightarrow>
   error + nat list \<times> real list list option \<times> 'g"
where
  "draft_loop multinomial approx_model temperature top_k top_p 0 x q g = Inr (x, q, g)"
| "draft_loop multinomial approx_model temperature top_k top_p (Suc c) x q g =
     (let q' = approx_model x
      in case item_at q' (-1) of
           Inl e \<Rightarrow> Inl e
         | Inr logits \<Rightarrow>
             (case sample multinomial logits temperature top_k top_p g of
                Inl e \<Rightarrow> Inl e
              | Inr (next_tok, g') \<Rightarrow>
                  draft_loop multinomial approx_model temperature top_k top_p c
                    (x @ [next_tok]) (Some q') g'))"

text \<open>
  The scan of lines 117-125 from index \<open>i\<close> on: the boundary \<open>n\<close> and the generator
  after the draws made.
\<close>

function accept_loop ::
  "'g uniform \<Rightarrow> real list list \<Rightarrow> real list list \<Rightarrow> nat list \<Rightarrow> int \<Rightarrow> int \<Rightarrow>
   int \<Rightarrow> 'g \<Rightarrow> error + int \<times> 'g"
where
  "accept_loop rand p q x prefix_len gamma i g =
     (if i < gamma then
        (let (r, g') = rand g
         in case item_at x (prefix_len + i) of
              Inl e \<Rightarrow> Inl e
            | Inr j \<Rightarrow>
                (case entry_at p (prefix_len + i - 1) j of
                   Inl e \<Rightarrow> Inl e
                 | Inr pj \<Rightarrow>
                     (case entry_at q (prefix_len + i - 1) j of
                        Inl e \<Rightarrow> Inl e
                      | Inr qj \<Rightarrow>
                          if greater_than r (tensor_div pj qj)
                          then Inr (prefix_len + i - 1, g')
                          else accept_loop rand p q x prefix_len gamma (i + 1) g')))
      else Inr (prefix_len + gamma - 1, g))"
  by pat_completeness auto
termination
  by (relation "measure (\<lambda>(rand, p, q, x, prefix_len, gamma, i, g). nat (gamma - i))") auto

text \<open>
  Lines 132-142: the token appended after the scan. Given the all-NaN residual, \<open>sample\<close>
  fails in \<open>torch.multinomial\<close> with a RuntimeError.
\<close>

definition next_token ::
  "'g sampler \<Rightarrow> real list list \<Rightarrow> real list list \<Rightarrow> int \<Rightarrow> int \<Rightarrow> int \<Rightarrow>
   real \<Rightarrow> int \<Rightarrow> real \<Rightarrow> 'g \<Rightarrow> error + nat \<times> 'g"
where
  "next_token multinomial p q n prefix_len gamma temperature top_k top_p g =
     (if n < prefix_len + gamma - 1 then
        (case item_at p n of
           Inl e \<Rightarrow> Inl e
         | Inr p_n \<Rightarrow>
             (case item_at q n of
                Inl e \<Rightarrow> Inl e
              | Inr q_n \<Rightarrow>
                  (case row_sub p_n q_n of
                     Inl e \<Rightarrow> Inl e
                   | Inr d \<Rightarrow>
                       (case max_fn d of
                          None \<Rightarrow> Inl RuntimeError
                        | Some residual \<Rightarrow>
                            sample multinomial residual temperature top_k top_p g))))
      else if n \<noteq> int (length p) - 1 then Inl AssertionError
      else
        (case item_at p (-1) of
           Inl e \<Rightarrow> Inl e
         | Inr p_last \<Rightarrow> sample multinomial p_last temperature top_k top_p g))"

text \<open>One iteration of the while loop, lines 101-144.\<close>

definition speculative_round ::
  "'g sampler \<Rightarrow> 'g uniform \<Rightarrow>
   token_model \<Rightarrow> token_model \<Rightarrow>
   int \<Rightarrow> real \<Rightarrow> int \<Rightarrow> real \<Rightarrow> nat list \<Rightarrow> 'g \<Rightarrow> error + nat list \<times> 'g"
where
  "speculative_round multinomial rand approx_model target_model gamma temperature top_k top_p
     prefix g =
     (let prefix_len = int (length prefix)
      in case draft_loop multinomial approx_model temperature top_k top_p (nat gamma)
                prefix None g of
           Inl e \<Rightarrow> Inl e
         | Inr (x, None, g1) \<Rightarrow> Inl UnboundLocalError
         | Inr (x, Some q_logits, g1) \<Rightarrow>
             (let q = norm_logits q_logits;
                  p = norm_logits (target_model x)
              in case accept_loop rand p q x prefix_len gamma 0 g1 of
                   Inl e \<Rightarrow> Inl e
                 | Inr (n, g2) \<Rightarrow>
                     if \<not> n \<ge> prefix_len - 1 then Inl AssertionError
                     else
                       (case next_token multinomial p q n prefix_len gamma
                               temperature top_k top_p g2 of
                          Inl e \<Rightarrow> Inl e
                        | Inr (t, g3) \<Rightarrow> Inr (take (nat (n + 1)) x @ [t], g3))))"

text \<open>
  The while loop of lines 100-145 with \<open>T = seq_len + max_len\<close>. \<open>rounds\<close> is a ghost
  counter of the iterations begun; the source has no such variable.
\<close>

function speculative_loop ::
  "'g sampler \<Rightarrow> 'g uniform \<Rightarrow>
   token_model \<Rightarrow> token_model \<Rightarrow>
   int \<Rightarrow> real \<Rightarrow> int \<Rightarrow> real \<Rightarrow> int \<Rightarrow> nat \<Rightarrow> nat list \<Rightarrow> 'g \<Rightarrow>
   (error + nat list \<times> 'g) \<times> nat"
where
  "speculative_loop multinomial rand approx_model target_model gamma temperature top_k top_p
     T rounds prefix g =
     (if int (length prefix) < T then
        (case speculative_round multinomial rand approx_model target_model gamma temperature
                top_k top_p prefix g of
           Inl e \<Rightarrow> (Inl e, rounds + 1)
         | Inr (prefix', g') \<Rightarrow>
             speculative_loop multinomial rand approx_model target_model gamma temperature
               top_k top_p T (rounds + 1) prefix' g')
      else (Inr (prefix, g), rounds))"
  by pat_completeness auto

definition speculative_sampling ::
  "'g sampler \<Rightarrow> 'g uniform \<Rightarrow> nat list \<Rightarrow>
   token_model \<Rightarrow> token_model \<Rightarrow>
   int \<Rightarrow> int \<Rightarrow> real \<Rightarrow> int \<Rightarrow> real \<Rightarrow> 'g \<Rightarrow> error + nat list \<times> 'g"
where
  "speculative_sampling multinomial rand prefix approx_model target_model max_len gamma
     temperature top_k top_p g =
     fst (speculative_loop multinomial rand approx_model target_model gamma temperature
            top_k top_p (int (length prefix) + max_len) 0 prefix g)"

subsection \<open>Stand-ins for the generator and the models\<close>

text \<open>
  A deterministic generator for running the model on concrete inputs: the state is a
  tape of numbers \<open>k\<close>, each read as the uniform draw \<open>(k mod 100) / 100\<close> of [0, 1);
  an empty tape draws 0. The weighted draw inverts the cumulative distribution.
\<close>

definition tape_rand :: "nat list \<Rightarrow> real \<times> nat list" where
  "tape_rand g = (case g of [] \<Rightarrow> (0, []) | k # g' \<Rightarrow> (real (k mod 100) / 100, g'))"

fun inverse_cdf :: "real list \<Rightarrow> real \<Rightarrow> nat" where
  "inverse_cdf [] u = 0"
| "inverse_cdf (p # ps) u = (if u < p then 0 else Suc (inverse_cdf ps (u - p)))"

definition tape_multinomial :: "real list \<Rightarrow> nat list \<Rightarrow> nat \<times> nat list" where
  "tape_multinomial probs g = (let (u, g') = tape_rand g in (inverse_cdf probs u, g'))"

text \<open>A model that returns the same row of logits at every position.\<close>

definition const_model :: "real list \<Rightarrow> nat list \<Rightarrow> real list list" where
  "const_model row x = map (\<lambda>_. row) x"

text \<open>
  A model whose logits at every position depend on the length of the whole sequence:
  what it returns for a position changes when a token is appended.
\<close>

definition length_model :: "nat list \<Rightarrow> real list list" where
  "length_model x = map (\<lambda>_. if length x < 2 then [0, 0] else [0, - ln 3]) x"

subsection \<open>Notions of the specification\<close>

text \<open>A valid probability distribution: no negative entry, and the entries sum to 1.\<close>

definition valid_distribution :: "real list \<Rightarrow> bool" where
  "valid_distribution p = (list_all (\<lambda>v. 0 \<le> v) p \<and> sum_list p = 1)"






section \<open>Properties\<close>

subsection \<open>The loops of one round\<close>

declare ar_loop.simps [simp del] accept_loop.simps [simp del]

lemma sample_nonzero:
  "sample multinomial logits temperature top_k top_p g = Inr (tok, g') \<Longrightarrow> tok \<noteq> 0"
  by (auto simp: sample_def Let_def split: sum.splits prod.splits if_splits)

lemma item_at_Inr:
  "item_at xs i = Inr v \<Longrightarrow> 0 \<le> i \<Longrightarrow> nat i < length xs \<and> v = xs ! nat i"
  by (auto simp: item_at_def Let_def split: if_splits)


lemma entry_at_Inr:
  "entry_at t pos j = Inr v \<Longrightarrow> 0 \<le> pos \<Longrightarrow>
   nat pos < length t \<and> j < length (t ! nat pos) \<and> v = t ! nat pos ! j"
  by (auto simp: entry_at_def split: sum.splits dest!: item_at_Inr)

lemma draft_loop_result:
  "draft_loop multinomial approx_model temperature top_k top_p c x q g = Inr (x', q', g') \<Longrightarrow>
   \<exists>ts. x' = x @ ts \<and> length ts = c \<and> 0 \<notin> set ts \<and>
        (if c = 0 then q' = q else q' = Some (approx_model (butlast x')))"
proof (induction c arbitrary: x q g)
  case 0
  then show ?case by simp
next
  case (Suc c)
  from Suc.prems obtain logits next_tok g1 where
    s: "sample multinomial logits temperature top_k top_p g = Inr (next_tok, g1)"
    and rec: "draft_loop multinomial approx_model temperature top_k top_p c (x @ [next_tok])
            (Some (approx_model x)) g1 = Inr (x', q', g')"
    by (auto simp: Let_def split: sum.splits)
  from Suc.IH [OF rec] obtain ts where ts: "x' = (x @ [next_tok]) @ ts" "length ts = c"
    "0 \<notin> set ts"
    "if c = 0 then q' = Some (approx_model x) else q' = Some (approx_model (butlast x'))"
    by blast
  from ts(1,2,4) have "q' = Some (approx_model (butlast x'))"
    by (cases "c = 0") (simp_all add: butlast_append)
  with ts sample_nonzero [OF s] show ?case
    by (intro exI [of _ "next_tok # ts"]) simp
qed

text \<open>One iteration of the scan that returns: a rejection at \<open>i\<close>, or the scan from \<open>i + 1\<close>.\<close>

lemma accept_loop_step:
  assumes "accept_loop rand p q x prefix_len gamma i g = Inr (n, g')" and "i < gamma"
  obtains j pj qj where "item_at x (prefix_len + i) = Inr j"
    and "entry_at p (prefix_len + i - 1) j = Inr pj"
    and "entry_at q (prefix_len + i - 1) j = Inr qj"
    and "if greater_than (fst (rand g)) (tensor_div pj qj) then n = prefix_len + i - 1
         else accept_loop rand p q x prefix_len gamma (i + 1) (snd (rand g)) = Inr (n, g')"
  using assms
  by (cases "rand g")
     (auto simp: accept_loop.simps [of rand p q x prefix_len gamma i g]
           split: sum.splits if_splits)

lemma accept_loop_bounds:
  "accept_loop rand p q x prefix_len gamma i g = Inr (n, g') \<Longrightarrow> i \<le> gamma \<Longrightarrow>
   prefix_len + i - 1 \<le> n \<and> n \<le> prefix_len + gamma - 1"
proof (induction rand p q x prefix_len gamma i g rule: accept_loop.induct)
  case (1 rand p q x prefix_len gamma i g)
  show ?case
  proof (cases "i < gamma")
    case False
    with "1.prems" show ?thesis
      by (simp add: accept_loop.simps [of rand p q x prefix_len gamma i g])
  next
    case True
    from "1.prems"(1) True obtain j pj qj where
      h: "item_at x (prefix_len + i) = Inr j" "entry_at p (prefix_len + i - 1) j = Inr pj"
         "entry_at q (prefix_len + i - 1) j = Inr qj"
      and c: "if greater_than (fst (rand g)) (tensor_div pj qj) then n = prefix_len + i - 1
         else accept_loop rand p q x prefix_len gamma (i + 1) (snd (rand g)) = Inr (n, g')"
      by (rule accept_loop_step)
    show ?thesis
    proof (cases "greater_than (fst (rand g)) (tensor_div pj qj)")
      case True
      with c \<open>i < gamma\<close> show ?thesis by simp
    next
      case False
      with c have "accept_loop rand p q x prefix_len gamma (i + 1) (snd (rand g)) = Inr (n, g')"
        by simp
      from "1.IH" [OF \<open>i < gamma\<close> refl prod.collapse h False this] \<open>i < gamma\<close>
      show ?thesis by simp
    qed
  qed
qed

lemma next_token_nonzero:
  "next_token multinomial p q n prefix_len gamma temperature top_k top_p g = Inr (t, g') \<Longrightarrow>
   t \<noteq> 0"
  by (auto simp: next_token_def split: if_splits sum.splits option.splits
        dest: sample_nonzero)

text \<open>
  The parts of a round that completes: the \<open>gamma\<close> drafted tokens \<open>ds\<close>, the boundary
  \<open>n\<close> and the token \<open>t\<close> appended. The draft logits are those of the last call of the
  draft model, made on the sequence without the last drafted token.
\<close>

lemma speculative_round_parts:
  assumes "speculative_round multinomial rand approx_model target_model gamma temperature
             top_k top_p prefix g = Inr (prefix', g')"
  obtains ds g1 n g2 t where
    "draft_loop multinomial approx_model temperature top_k top_p (nat gamma) prefix None g
       = Inr (prefix @ ds, Some (approx_model (butlast (prefix @ ds))), g1)"
    and "accept_loop rand (norm_logits (target_model (prefix @ ds)))
           (norm_logits (approx_model (butlast (prefix @ ds)))) (prefix @ ds)
           (int (length prefix)) gamma 0 g1 = Inr (n, g2)"
    and "next_token multinomial (norm_logits (target_model (prefix @ ds)))
           (norm_logits (approx_model (butlast (prefix @ ds)))) n
           (int (length prefix)) gamma temperature top_k top_p g2 = Inr (t, g')"
    and "int (length prefix) - 1 \<le> n" and "n \<le> int (length prefix) + gamma - 1"
    and "0 < gamma" and "length ds = nat gamma" and "0 \<notin> set ds" and "t \<noteq> 0"
    and "prefix' = take (nat (n + 1)) (prefix @ ds) @ [t]"
proof -
  from assms obtain x q_logits g1 n g2 t where
    d: "draft_loop multinomial approx_model temperature top_k top_p (nat gamma) prefix None g
          = Inr (x, Some q_logits, g1)"
    and a: "accept_loop rand (norm_logits (target_model x)) (norm_logits q_logits) x
              (int (length prefix)) gamma 0 g1 = Inr (n, g2)"
    and t: "next_token multinomial (norm_logits (target_model x)) (norm_logits q_logits) n
           (int (length prefix)) gamma temperature top_k top_p g2 = Inr (t, g')"
    and n: "int (length prefix) - 1 \<le> n"
    and r: "prefix' = take (nat (n + 1)) x @ [t]"
    by (auto simp: speculative_round_def Let_def split: sum.splits option.splits if_splits)
  from draft_loop_result [OF d] obtain ds where ds: "x = prefix @ ds" "length ds = nat gamma"
    "0 \<notin> set ds"
    and q: "if nat gamma = 0 then Some q_logits = None
            else Some q_logits = Some (approx_model (butlast x))"
    by blast
  from q have pos: "0 < gamma" and ql: "q_logits = approx_model (butlast (prefix @ ds))"
    using ds(1) by (auto split: if_splits)
  from accept_loop_bounds [OF a] pos have up: "n \<le> int (length prefix) + gamma - 1" by simp
  from that [OF d [unfolded ds(1) ql] a [unfolded ds(1) ql] t [unfolded ds(1) ql] n up pos
      ds(2,3) next_token_nonzero [OF t] r [unfolded ds(1)]]
  show thesis .
qed

lemma speculative_round_appends:
  assumes "speculative_round multinomial rand approx_model target_model gamma temperature
             top_k top_p prefix g = Inr (prefix', g')"
  shows "\<exists>ts. prefix' = prefix @ ts \<and> 0 \<notin> set ts \<and> 1 \<le> length ts \<and>
           int (length ts) \<le> gamma + 1"
proof -
  from assms obtain ds n t where n: "int (length prefix) - 1 \<le> n"
    and up: "n \<le> int (length prefix) + gamma - 1"
    and pos: "0 < gamma" and len: "length ds = nat gamma" and nz: "0 \<notin> set ds" "t \<noteq> 0"
    and r: "prefix' = take (nat (n + 1)) (prefix @ ds) @ [t]"
    by (rule speculative_round_parts)
  let ?k = "nat (n + 1) - length prefix"
  from n have "length prefix \<le> nat (n + 1)" by linarith
  with r have eq: "prefix' = prefix @ (take ?k ds @ [t])" by simp
  from nz have z: "0 \<notin> set (take ?k ds @ [t])" by (auto dest: in_set_takeD)
  from up len pos n have "length (take ?k ds) = ?k" "int ?k \<le> gamma" by auto
  then have "1 \<le> length (take ?k ds @ [t])" "int (length (take ?k ds @ [t])) \<le> gamma + 1"
    by simp_all
  with eq z show ?thesis by blast
qed

termination speculative_loop
proof (relation "measure (\<lambda>(multinomial, rand, approx_model, target_model, gamma,
                   temperature, top_k, top_p, T, rounds, prefix, g).
                   nat (T - int (length prefix)))", goal_cases)
  case 1
  show ?case by simp
next
  case (2 multinomial rand approx_model target_model gamma temperature top_k top_p T rounds
          prefix g xa x y)
  from 2(2) [symmetric] 2(3) have
    "speculative_round multinomial rand approx_model target_model gamma temperature
       top_k top_p prefix g = Inr (x, y)"
    by simp
  from speculative_round_appends [OF this] 2(1) show ?case by auto
qed

declare speculative_loop.simps [simp del]

subsection \<open>The token sampler\<close>


















subsection \<open>The residual distribution\<close>

lemma sum_list_map2_diff:
  "length p = length q \<Longrightarrow> sum_list (map2 (\<lambda>u v. u - v) p q) = sum_list p - sum_list (q :: real list)"
  by (induction p q rule: list_induct2) simp_all

lemma sum_list_map_divide:
  "sum_list (map (\<lambda>v. v / s) xs) = sum_list xs / (s :: real)"
  by (induction xs) (simp_all add: add_divide_distrib)

lemma map2_diff_all_zero:
  "length p = length q \<Longrightarrow> \<forall>v\<in>set (map2 (\<lambda>u v. u - v) p q). v = 0 \<Longrightarrow> p = (q :: real list)"
  by (induction p q rule: list_induct2) simp_all

lemma nonpos_sum_zero:
  "\<forall>v\<in>set d. v \<le> 0 \<Longrightarrow> sum_list d = 0 \<Longrightarrow> \<forall>v\<in>set (d :: real list). v = 0"
proof (induction d)
  case Nil
  then show ?case by simp
next
  case (Cons a d)
  have "sum_list d \<le> 0" using Cons.prems(1) by (simp add: sum_list_nonpos)
  with Cons.prems have "a = 0" "sum_list d = 0" by auto
  with Cons show ?case by simp
qed

lemma positive_part_nonneg:
  "0 \<le> sum_list (map (\<lambda>v. if v > 0 then v else 0) (d :: real list))"
  by (induction d) simp_all

lemma positive_part_zero:
  "sum_list (map (\<lambda>v. if v > 0 then v else 0) d) = 0 \<Longrightarrow> \<forall>v\<in>set (d :: real list). v \<le> 0"
proof (induction d)
  case Nil
  then show ?case by simp
next
  case (Cons a d)
  have "0 \<le> sum_list (map (\<lambda>v. if v > 0 then v else 0) d)" by (rule positive_part_nonneg)
  with Cons.prems have "a \<le> 0 \<and> sum_list (map (\<lambda>v. if v > 0 then v else 0) d) = 0"
    by (simp split: if_splits)
  with Cons.IH show ?case by simp
qed

lemma positive_part_sum:
  assumes "sum_list d = 0" and "\<exists>v\<in>set d. v \<noteq> 0"
  shows "0 < sum_list (map (\<lambda>v. if v > 0 then v else 0) (d :: real list))"
proof -
  let ?c = "map (\<lambda>v. if v > 0 then v else 0) d"
  have "sum_list ?c \<noteq> 0"
  proof
    assume "sum_list ?c = 0"
    then have "\<forall>v\<in>set d. v \<le> 0" by (rule positive_part_zero)
    from nonpos_sum_zero [OF this assms(1)] assms(2) show False by blast
  qed
  with positive_part_nonneg [of d] show ?thesis by simp
qed

text \<open>
  C5 (amended). For two valid distributions of the same size that differ, the residual
  that \<open>max_fn\<close> computes from their difference is defined, has no negative entry and
  sums to 1.
\<close>

theorem max_fn_residual_valid:
  assumes "valid_distribution p" and "valid_distribution q"
    and "length p = length q" and "p \<noteq> q"
  shows "\<exists>d r. row_sub p q = Inr d \<and> max_fn d = Some r \<and>
           list_all (\<lambda>v. 0 \<le> v) r \<and> sum_list r = 1"
proof -
  let ?d = "map2 (\<lambda>u v. u - v) p q"
  let ?c = "map (\<lambda>v. if v > 0 then v else 0) ?d"
  from assms have s0: "sum_list ?d = 0"
    by (simp add: sum_list_map2_diff valid_distribution_def)
  from map2_diff_all_zero [OF assms(3)] assms(4) have "\<exists>v\<in>set ?d. v \<noteq> 0" by blast
  from positive_part_sum [OF s0 this] have pos: "0 < sum_list ?c" .
  have d: "row_sub p q = Inr ?d" using assms(3) by (simp add: row_sub_def)
  have m: "max_fn ?d = Some (map (\<lambda>v. v / sum_list ?c) ?c)"
    using pos by (simp add: max_fn_def Let_def)
  have nn: "list_all (\<lambda>v. 0 \<le> v) (map (\<lambda>v. v / sum_list ?c) ?c)"
    using pos by (auto simp: list_all_iff)
  have "sum_list (map (\<lambda>v. v / sum_list ?c) ?c) = 1"
    using pos by (simp only: sum_list_map_divide) simp
  with d m nn show ?thesis by blast
qed

theorem max_fn_residual_valid_witness:
  "\<exists>d r. row_sub [1/4, 1/4, 1/2] [1/4, 1/2, 1/4] = Inr d \<and> max_fn d = Some r \<and>
     list_all (\<lambda>v. 0 \<le> v) r \<and> sum_list r = 1"
  using max_fn_residual_valid [of "[1/4, 1/4, 1/2]" "[1/4, 1/2, 1/4]"]
  by (simp add: valid_distribution_def)

text \<open>
  C5 as stated fails for two equal distributions: the positive part of their difference
  sums to 0, and \<open>max_fn\<close> returns the all-NaN tensor.
\<close>

theorem max_fn_equal_distributions:
  "valid_distribution [1/2, 1/2] \<and> row_sub [1/2, 1/2] [1/2, 1/2] = Inr [0, 0] \<and> max_fn [0, 0] = None"
  by (simp add: valid_distribution_def row_sub_def max_fn_def)

subsection \<open>The autoregressive generator\<close>

lemma ar_loop_result:
  "ar_loop multinomial model temperature top_k top_p n T x g = Inr (y, n', g') \<Longrightarrow>
   \<exists>ts. y = x @ ts \<and> int (length ts) = max 0 (T - n) \<and> 0 \<notin> set ts \<and> n' = max n T"
proof (induction multinomial model temperature top_k top_p n T x g rule: ar_loop.induct)
  case (1 multinomial model temperature top_k top_p n T x g)
  show ?case
  proof (cases "n < T")
    case False
    with "1.prems" show ?thesis by (simp add: ar_loop.simps [of _ _ _ _ _ n T])
  next
    case True
    with "1.prems" obtain logits idx_next g1 where
      l: "item_at (model x) (-1) = Inr logits"
      and s: "sample multinomial logits temperature top_k top_p g = Inr (idx_next, g1)"
      and r: "ar_loop multinomial model temperature top_k top_p (n + 1) T (x @ [idx_next]) g1
                = Inr (y, n', g')"
      by (auto simp: ar_loop.simps [of _ _ _ _ _ n T x g] split: sum.splits)
    from "1.IH" [OF True l s refl r] obtain ts where
      ts: "y = (x @ [idx_next]) @ ts" "int (length ts) = max 0 (T - (n + 1))"
        "0 \<notin> set ts" "n' = max (n + 1) T"
      by blast
    from sample_nonzero [OF s] ts True
    have "y = x @ (idx_next # ts) \<and> int (length (idx_next # ts)) = max 0 (T - n) \<and>
          0 \<notin> set (idx_next # ts) \<and> n' = max n T"
      by auto
    then show ?thesis by blast
  qed
qed

lemma ar_loop_snoc:
  "n \<le> T \<Longrightarrow>
   ar_loop multinomial model temperature top_k top_p n (T + 1) x g =
     (case ar_loop multinomial model temperature top_k top_p n T x g of
        Inl e \<Rightarrow> Inl e
      | Inr (y, n', g1) \<Rightarrow>
          (case item_at (model y) (-1) of
             Inl e \<Rightarrow> Inl e
           | Inr logits \<Rightarrow>
               (case sample multinomial logits temperature top_k top_p g1 of
                  Inl e \<Rightarrow> Inl e
                | Inr (idx_next, g2) \<Rightarrow> Inr (y @ [idx_next], n' + 1, g2))))"
proof (induction multinomial model temperature top_k top_p n T x g rule: ar_loop.induct)
  case (1 multinomial model temperature top_k top_p n T x g)
  show ?case
  proof (cases "n < T")
    case False
    with "1.prems" have "n = T" by simp
    then show ?thesis
      by (simp add: ar_loop.simps [of _ _ _ _ _ T "T + 1"] ar_loop.simps [of _ _ _ _ _ T T]
            ar_loop.simps [of _ _ _ _ _ "T + 1" "T + 1"] split: sum.splits)
  next
    case True
    show ?thesis
    proof (cases "item_at (model x) (-1)")
      case (Inl e)
      with True show ?thesis
        by (simp add: ar_loop.simps [of _ _ _ _ _ n T x g]
              ar_loop.simps [of _ _ _ _ _ n "T + 1" x g])
    next
      case (Inr logits)
      show ?thesis
      proof (cases "sample multinomial logits temperature top_k top_p g")
        case (Inl e)
        with True Inr show ?thesis
          by (simp add: ar_loop.simps [of _ _ _ _ _ n T x g]
                ar_loop.simps [of _ _ _ _ _ n "T + 1" x g])
      next
        case s: (Inr r)
        obtain idx_next g1 where r: "r = (idx_next, g1)" by (cases r)
        from True have "n + 1 \<le> T" by simp
        from "1.IH" [OF True Inr s [unfolded r] refl this] True Inr s r
        show ?thesis
          by (simp add: ar_loop.simps [of _ _ _ _ _ n T x g]
                ar_loop.simps [of _ _ _ _ _ n "T + 1" x g])
      qed
    qed
  qed
qed

lemma autoregressive_sampling_snoc:
  assumes "0 \<le> N"
  shows "autoregressive_sampling multinomial x model (N + 1) temperature top_k top_p g =
      (case autoregressive_sampling multinomial x model N temperature top_k top_p g of
         Inl e \<Rightarrow> Inl e
       | Inr (y, g1) \<Rightarrow>
           (case item_at (model y) (-1) of
              Inl e \<Rightarrow> Inl e
            | Inr logits \<Rightarrow>
                (case sample multinomial logits temperature top_k top_p g1 of
                   Inl e \<Rightarrow> Inl e
                 | Inr (idx_next, g2) \<Rightarrow> Inr (y @ [idx_next], g2))))"
proof -
  from assms have "(1::int) \<le> 1 + N" by simp
  from ar_loop_snoc [OF this, of multinomial model temperature top_k top_p x g]
  have "ar_loop multinomial model temperature top_k top_p 1 (1 + (N + 1)) x g =
     (case ar_loop multinomial model temperature top_k top_p 1 (1 + N) x g of
        Inl e \<Rightarrow> Inl e
      | Inr (y, n', g1) \<Rightarrow>
          (case item_at (model y) (-1) of
             Inl e \<Rightarrow> Inl e
           | Inr logits \<Rightarrow>
               (case sample multinomial logits temperature top_k top_p g1 of
                  Inl e \<Rightarrow> Inl e
                | Inr (idx_next, g2) \<Rightarrow> Inr (y @ [idx_next], n' + 1, g2))))"
    by (simp add: add.assoc)
  then show ?thesis
    by (simp add: autoregressive_sampling_def split: sum.splits prod.splits)
qed

text \<open>
  C9 (amended). For \<open>N \<ge> 0\<close>: with \<open>N = 0\<close> the generator returns its input; the
  run for \<open>N + 1\<close> tokens is the run for \<open>N\<close> tokens followed by one call of the model
  on the sequence so far, one call of \<open>sample\<close> on the row of its final position, and
  the append of the token drawn, an error of either call ending the run; and a run that
  returns has appended exactly \<open>N\<close> tokens to the prefix.
\<close>

theorem autoregressive_sampling_appends:
  "0 \<le> N \<longrightarrow>
     autoregressive_sampling multinomial x model 0 temperature top_k top_p g = Inr (x, g) \<and>
     autoregressive_sampling multinomial x model (N + 1) temperature top_k top_p g =
       (case autoregressive_sampling multinomial x model N temperature top_k top_p g of
          Inl e \<Rightarrow> Inl e
        | Inr (y, g1) \<Rightarrow>
            (case item_at (model y) (-1) of
               Inl e \<Rightarrow> Inl e
             | Inr logits \<Rightarrow>
                 (case sample multinomial logits temperature top_k top_p g1 of
                    Inl e \<Rightarrow> Inl e
                  | Inr (idx_next, g2) \<Rightarrow> Inr (y @ [idx_next], g2)))) \<and>
     (autoregressive_sampling multinomial x model N temperature top_k top_p g = Inr (y', g') \<longrightarrow>
        (\<exists>ts. y' = x @ ts \<and> length ts = nat N))"
  (is "?H \<longrightarrow> ?A \<and> ?B \<and> (?R \<longrightarrow> ?C)")
proof (intro impI conjI)
  show ?A by (simp add: autoregressive_sampling_def ar_loop.simps [of _ _ _ _ _ 1 1])
next
  assume ?H
  then show ?B by (rule autoregressive_sampling_snoc)
next
  assume N: ?H and ?R
  then obtain n' where
    "ar_loop multinomial model temperature top_k top_p 1 (1 + N) x g = Inr (y', n', g')"
    by (auto simp: autoregressive_sampling_def split: sum.splits)
  from ar_loop_result [OF this] N show ?C by auto
qed

lemmas model_eval = sample_def sample_probs_def top_k_top_p_filter_def top_k_filter_def
  top_p_filter_def topk_def item_at_def entry_at_def softmax_def exp_logit_def
  tape_multinomial_def tape_rand_def const_model_def

theorem autoregressive_sampling_appends_witness:
  "autoregressive_sampling tape_multinomial [1] (const_model [0, 0]) 0 1 0 0 [50, 60]
     = Inr ([1], [50, 60]) \<and>
   autoregressive_sampling tape_multinomial [1] (const_model [0, 0]) 2 1 0 0 [50, 60]
     = Inr ([1, 1, 1], []) \<and>
   (\<exists>ts. [1, 1] = [1] @ ts \<and> length ts = nat 1)"
proof -
  have one: "autoregressive_sampling tape_multinomial [1] (const_model [0, 0]) 1 1 0 0 [50, 60]
     = Inr ([1, 1], [60])"
    by (simp add: autoregressive_sampling_def ar_loop.simps model_eval)
  from autoregressive_sampling_appends [of 1 tape_multinomial "[1]" "const_model [0, 0]"
      1 0 0 "[50, 60]" "[1, 1]" "[60]"] one
  show ?thesis by (simp add: model_eval)
qed

text \<open>
  C9 as stated fails when a draw yields the reserved id 0. Below \<open>N = 2\<close>, the model
  gives two tokens the logits \<open>(0, 0)\<close>, so each has probability 1/2. The first draw,
  0.5, is token 1, which is appended; the second draw, 0, is token 0, \<open>sample\<close> raises,
  and no sequence is returned.
\<close>

theorem autoregressive_sampling_raises:
  "autoregressive_sampling tape_multinomial [1] (const_model [0, 0]) 2 1 0 0 [50, 0]
     = Inl RuntimeError"
  by (simp add: autoregressive_sampling_def ar_loop.simps model_eval)

subsection \<open>The orchestrator loop\<close>

lemmas round_eval = speculative_round_def next_token_def norm_logits_def accept_loop.simps
  tensor_div_def row_sub_def max_fn_def numeral_2_eq_2 model_eval


lemma round_accepting:
  "speculative_round tape_multinomial tape_rand (const_model [0, ln 2, 0])
     (const_model [0, 0, ln 2]) 2 1 1 0 [1] [0, 0, 30, 40, 0] = Inr ([1, 1, 1, 2], [])"
  by (simp add: round_eval)

lemma run_accepting:
  "speculative_sampling tape_multinomial tape_rand [1] (const_model [0, ln 2, 0])
     (const_model [0, 0, ln 2]) 1 2 1 1 0 [0, 0, 30, 40, 0] = Inr ([1, 1, 1, 2], [])"
  using round_accepting by (simp add: speculative_sampling_def speculative_loop.simps)

lemma speculative_loop_result:
  "speculative_loop multinomial rand approx_model target_model gamma temperature top_k top_p
     T rounds prefix g = (Inr (y, g'), k) \<Longrightarrow>
   \<exists>ts. y = prefix @ ts \<and> 0 \<notin> set ts \<and> T \<le> int (length y) \<and>
        int (length y) \<le> max (int (length prefix)) (T + gamma)"
proof (induction multinomial rand approx_model target_model gamma temperature top_k top_p
         T rounds prefix g rule: speculative_loop.induct)
  case (1 multinomial rand approx_model target_model gamma temperature top_k top_p T rounds
          prefix g)
  note unfold = speculative_loop.simps [of multinomial rand approx_model target_model gamma
      temperature top_k top_p T rounds prefix g]
  show ?case
  proof (cases "int (length prefix) < T")
    case False
    with "1.prems" show ?thesis by (simp add: unfold)
  next
    case True
    with "1.prems" obtain prefix' g1 where
      r: "speculative_round multinomial rand approx_model target_model gamma temperature
            top_k top_p prefix g = Inr (prefix', g1)"
      and l: "speculative_loop multinomial rand approx_model target_model gamma temperature
            top_k top_p T (rounds + 1) prefix' g1 = (Inr (y, g'), k)"
      by (auto simp: unfold split: sum.splits)
    from speculative_round_appends [OF r] obtain ts1 where
      ts1: "prefix' = prefix @ ts1" "0 \<notin> set ts1" "int (length ts1) \<le> gamma + 1"
      by blast
    from "1.IH" [OF True r refl l] obtain ts2 where
      ts2: "y = prefix' @ ts2" "0 \<notin> set ts2" "T \<le> int (length y)"
        "int (length y) \<le> max (int (length prefix')) (T + gamma)"
      by blast
    from ts1 ts2 True show ?thesis by (intro exI [of _ "ts1 @ ts2"]) auto
  qed
qed




text \<open>
  C10. With \<open>gamma \<ge> 1\<close> and \<open>max_len \<ge> 0\<close>, a run that returns gives a sequence of
  at least \<open>prefix_len + max_len\<close> and at most \<open>prefix_len + max_len + gamma\<close> tokens.
\<close>

theorem speculative_sampling_length:
  "1 \<le> gamma \<and> 0 \<le> max_len \<and>
   speculative_sampling multinomial rand prefix approx_model target_model max_len gamma
     temperature top_k top_p g = Inr (y, g') \<longrightarrow>
   int (length prefix) + max_len \<le> int (length y) \<and>
   int (length y) \<le> int (length prefix) + max_len + gamma"
  (is "?H \<longrightarrow> ?C")
proof
  assume a: ?H
  then obtain k where "speculative_loop multinomial rand approx_model target_model gamma
     temperature top_k top_p (int (length prefix) + max_len) 0 prefix g = (Inr (y, g'), k)"
    by (metis speculative_sampling_def prod.collapse)
  from speculative_loop_result [OF this] a show ?C by auto
qed

text \<open>An instance: a run that overshoots by \<open>gamma\<close>, 1 token asked for and 3 appended.\<close>

theorem speculative_sampling_length_witness:
  "speculative_sampling tape_multinomial tape_rand [1] (const_model [0, ln 2, 0])
     (const_model [0, 0, ln 2]) 1 2 1 1 0 [0, 0, 30, 40, 0] = Inr ([1, 1, 1, 2], []) \<and>
   int (length [1::nat]) + 1 \<le> int (length [1, 1, 1, 2::nat]) \<and>
   int (length [1, 1, 1, 2::nat]) \<le> int (length [1::nat]) + 1 + 2"
  using speculative_sampling_length [of 2 1 tape_multinomial tape_rand "[1]"
      "const_model [0, ln 2, 0]" "const_model [0, 0, ln 2]" 1 1 0 "[0, 0, 30, 40, 0]"
      "[1, 1, 1, 2]" "[]"] run_accepting
  by simp

subsection \<open>The reserved token id 0\<close>





subsection \<open>The verification scan\<close>






text \<open>
  C4 (amended). When the draft probability of the drafted token at its comparison
  position is 0 (and the target probability is not negative), the test raises nothing:
  the quotient is \<open>+inf\<close> or NaN, \<open>r > quotient\<close> is false, and the token is not
  rejected; the scan goes on to the next index, and the boundary it returns keeps the
  token.
\<close>

theorem zero_draft_probability_accepts:
  "i < gamma \<and> item_at x (prefix_len + i) = Inr j \<and>
   entry_at p (prefix_len + i - 1) j = Inr pj \<and> 0 \<le> pj \<and>
   entry_at q (prefix_len + i - 1) j = Inr 0 \<longrightarrow>
   \<not> greater_than (fst (rand g)) (tensor_div pj 0) \<and>
   accept_loop rand p q x prefix_len gamma i g
     = accept_loop rand p q x prefix_len gamma (i + 1) (snd (rand g)) \<and>
   (accept_loop rand p q x prefix_len gamma i g = Inr (n, g') \<longrightarrow> prefix_len + i \<le> n)"
  (is "?H \<longrightarrow> ?A \<and> ?B \<and> ?C")
proof (intro impI)
  assume a: ?H
  then have ng: ?A by (simp add: tensor_div_def)
  with a have step: ?B
    by (cases "rand g") (simp add: accept_loop.simps [of rand p q x prefix_len gamma i g])
  have ?C
  proof
    assume "accept_loop rand p q x prefix_len gamma i g = Inr (n, g')"
    with step have "accept_loop rand p q x prefix_len gamma (i + 1) (snd (rand g)) = Inr (n, g')"
      by simp
    from accept_loop_bounds [OF this] a show "prefix_len + i \<le> n" by simp
  qed
  with ng step show "?A \<and> ?B \<and> ?C" by blast
qed

text \<open>
  An instance, which is also where C4 as stated fails. The prefix is \<open>[5]\<close> and the
  drafted token is 1 (\<open>prefix_len = 1\<close>, \<open>gamma = 1\<close>); at position 0 the draft
  probability of token 1 is 0 and its target probability is 1/2; the draw is 0.9. The
  test 0.9 > (1/2) / 0 is false, and the scan returns \<open>prefix_len + gamma - 1 = 1\<close>, which
  keeps the token; a rejection would have returned \<open>prefix_len - 1 = 0\<close>.
\<close>

theorem zero_draft_probability_accepts_witness:
  "\<not> greater_than (fst (tape_rand [90])) (tensor_div (1/2) 0) \<and>
   accept_loop tape_rand [[1/2, 1/2]] [[1, 0]] [5, 1] 1 1 0 [90]
     = accept_loop tape_rand [[1/2, 1/2]] [[1, 0]] [5, 1] 1 1 (0 + 1) (snd (tape_rand [90])) \<and>
   (1::int) + 0 \<le> 1"
proof -
  have h: "item_at [5, 1::nat] (1 + 0) = Inr 1"
    "entry_at [[1/2, 1/2]] (1 + 0 - 1) 1 = Inr (1/2)"
    "entry_at [[1, 0]] (1 + 0 - 1) 1 = Inr 0"
    by (simp_all add: item_at_def entry_at_def)
  have r: "accept_loop tape_rand [[1/2, 1/2]] [[1, 0]] [5, 1] 1 1 0 [90] = Inr (1, [])"
    by (simp add: accept_loop.simps item_at_def entry_at_def tensor_div_def tape_rand_def)
  from zero_draft_probability_accepts [of 0 1 "[5, 1]" 1 1 "[[1/2, 1/2]]" "1/2" "[[1, 0]]"
      tape_rand "[90]" 1 "[]"] h r
  show ?thesis by simp
qed

theorem zero_draft_probability_not_rejected:
  "entry_at [[1, 0]] 0 1 = Inr 0 \<and> entry_at [[1/2, 1/2]] 0 1 = Inr (1/2) \<and>
   tape_rand [90] = (9/10, []) \<and>
   accept_loop tape_rand [[1/2, 1/2]] [[1, 0]] [5, 1] 1 1 0 [90] = Inr (1, [])"
  by (simp add: accept_loop.simps item_at_def entry_at_def tensor_div_def tape_rand_def)

subsection \<open>The token appended after the scan\<close>





subsection \<open>Identical draft and target models\<close>

lemma draft_loop_ar_loop:
  "draft_loop multinomial model temperature top_k top_p c x q g = Inr (x', q', g1) \<Longrightarrow>
   ar_loop multinomial model temperature top_k top_p n (n + int c) x g
     = Inr (x', n + int c, g1)"
proof (induction c arbitrary: x q g n)
  case 0
  then show ?case by (simp add: ar_loop.simps [of _ _ _ _ _ n n])
next
  case (Suc c)
  from Suc.prems obtain logits next_tok g' where
    l: "item_at (model x) (-1) = Inr logits"
    and s: "sample multinomial logits temperature top_k top_p g = Inr (next_tok, g')"
    and rec: "draft_loop multinomial model temperature top_k top_p c (x @ [next_tok])
            (Some (model x)) g' = Inr (x', q', g1)"
    by (auto simp: Let_def split: sum.splits)
  define T where "T = n + int (Suc c)"
  then have e: "T = (n + 1) + int c" and lt: "n < T" by simp_all
  from Suc.IH [OF rec, of "n + 1"]
  have "ar_loop multinomial model temperature top_k top_p (n + 1) T (x @ [next_tok]) g'
          = Inr (x', T, g1)"
    by (simp only: e)
  with lt l s have "ar_loop multinomial model temperature top_k top_p n T x g = Inr (x', T, g1)"
    by (simp add: ar_loop.simps [of multinomial model temperature top_k top_p n T x g])
  then show ?case by (simp only: T_def)
qed

lemma entry_at_nth:
  "0 \<le> pos \<Longrightarrow> nat pos < length t \<Longrightarrow> j < length (t ! nat pos) \<Longrightarrow>
   entry_at t pos j = Inr (t ! nat pos ! j)"
  by (simp add: entry_at_def item_at_def)

lemma causal_rows_agree:
  assumes "\<forall>xs ys i. i < length (model xs) \<longrightarrow>
             i < length (model (xs @ ys)) \<and> model (xs @ ys) ! i = model xs ! i"
    and "0 \<le> pos" and "entry_at (norm_logits (model xs)) pos j = Inr v"
  shows "entry_at (norm_logits (model (xs @ ys))) pos j = Inr v"
proof -
  from entry_at_Inr [OF assms(3,2)] have lt0: "nat pos < length (norm_logits (model xs))"
    and j: "j < length (norm_logits (model xs) ! nat pos)"
    and v: "v = norm_logits (model xs) ! nat pos ! j"
    by simp_all
  from lt0 have lt: "nat pos < length (model xs)" by (simp add: norm_logits_def)
  from assms(1) lt have lt': "nat pos < length (model (xs @ ys))"
    and eq: "model (xs @ ys) ! nat pos = model xs ! nat pos" by blast+
  from lt lt' eq
  have rows: "norm_logits (model (xs @ ys)) ! nat pos = norm_logits (model xs) ! nat pos"
    by (simp add: norm_logits_def)
  from lt' have lt'': "nat pos < length (norm_logits (model (xs @ ys)))"
    by (simp add: norm_logits_def)
  from j rows have "j < length (norm_logits (model (xs @ ys)) ! nat pos)" by simp
  from entry_at_nth [OF assms(2) lt'' this] rows v show ?thesis by simp
qed

lemma accept_loop_accepts_all:
  assumes "accept_loop rand p q x prefix_len gamma i g = Inr (n, g')"
    and "0 \<le> i" and "i \<le> gamma" and "1 \<le> prefix_len"
    and "\<forall>pos j v. 0 \<le> pos \<longrightarrow> entry_at q pos j = Inr v \<longrightarrow> entry_at p pos j = Inr v"
    and "\<forall>g. fst (rand g) \<le> 1"
  shows "n = prefix_len + gamma - 1"
  using assms
proof (induction rand p q x prefix_len gamma i g rule: accept_loop.induct)
  case (1 rand p q x prefix_len gamma i g)
  show ?case
  proof (cases "i < gamma")
    case False
    with "1.prems" show ?thesis
      by (simp add: accept_loop.simps [of rand p q x prefix_len gamma i g])
  next
    case True
    from "1.prems"(1) True obtain j pj qj where
      j: "item_at x (prefix_len + i) = Inr j"
      and pj: "entry_at p (prefix_len + i - 1) j = Inr pj"
      and qj: "entry_at q (prefix_len + i - 1) j = Inr qj"
      and c: "if greater_than (fst (rand g)) (tensor_div pj qj) then n = prefix_len + i - 1
         else accept_loop rand p q x prefix_len gamma (i + 1) (snd (rand g)) = Inr (n, g')"
      by (rule accept_loop_step)
    from "1.prems"(2,4) have "0 \<le> prefix_len + i - 1" by simp
    with "1.prems"(5) qj pj have "pj = qj" by fastforce
    with "1.prems"(6) have acc: "\<not> greater_than (fst (rand g)) (tensor_div pj qj)"
      by (simp add: tensor_div_def not_less)
    with c have rec: "accept_loop rand p q x prefix_len gamma (i + 1) (snd (rand g))
                        = Inr (n, g')" by simp
    from True "1.prems"(2) have "0 \<le> i + 1" "i + 1 \<le> gamma" by simp_all
    from "1.IH" [OF True refl prod.collapse j pj qj acc rec this "1.prems"(4,5,6)]
    show ?thesis .
  qed
qed

lemma identical_models_round:
  assumes ne: "prefix \<noteq> []"
    and causal: "\<forall>xs ys i. i < length (model xs) \<longrightarrow>
             i < length (model (xs @ ys)) \<and> model (xs @ ys) ! i = model xs ! i"
    and unit: "\<forall>g. fst (rand g) \<le> 1"
    and round: "speculative_round multinomial rand model model gamma temperature
                  top_k top_p prefix g = Inr (prefix', g')"
  shows "\<exists>ds g1 g2.
      length ds = nat gamma \<and>
      accept_loop rand (norm_logits (model (prefix @ ds)))
        (norm_logits (model (butlast (prefix @ ds)))) (prefix @ ds)
        (int (length prefix)) gamma 0 g1 = Inr (int (length prefix) + gamma - 1, g2) \<and>
      autoregressive_sampling multinomial prefix model gamma temperature top_k top_p g
        = Inr (prefix @ ds, g1) \<and>
      butlast prefix' = prefix @ ds \<and>
      length prefix' = length prefix + nat gamma + 1"
proof -
  from round obtain ds g1 n g2 t where
    d: "draft_loop multinomial model temperature top_k top_p (nat gamma) prefix None g
       = Inr (prefix @ ds, Some (model (butlast (prefix @ ds))), g1)"
    and s: "accept_loop rand (norm_logits (model (prefix @ ds)))
           (norm_logits (model (butlast (prefix @ ds)))) (prefix @ ds)
           (int (length prefix)) gamma 0 g1 = Inr (n, g2)"
    and pos: "0 < gamma" and len: "length ds = nat gamma"
    and r: "prefix' = take (nat (n + 1)) (prefix @ ds) @ [t]"
    by (auto elim: speculative_round_parts)
  from len pos have "ds \<noteq> []" by auto
  then have split: "prefix @ ds = butlast (prefix @ ds) @ [last ds]"
    by (metis append_butlast_last_id append_is_Nil_conv last_appendR)
  have agree: "\<forall>pos j v. 0 \<le> pos \<longrightarrow>
      entry_at (norm_logits (model (butlast (prefix @ ds)))) pos j = Inr v \<longrightarrow>
      entry_at (norm_logits (model (prefix @ ds))) pos j = Inr v"
    using causal_rows_agree [OF causal, of _ "butlast (prefix @ ds)" _ _ "[last ds]"] split
    by simp
  from ne have "1 \<le> int (length prefix)" by (cases prefix) simp_all
  from accept_loop_accepts_all [OF s _ _ this agree unit] pos
  have n: "n = int (length prefix) + gamma - 1" by simp
  from draft_loop_ar_loop [OF d, of 1] pos
  have "ar_loop multinomial model temperature top_k top_p 1 (1 + gamma) prefix g
          = Inr (prefix @ ds, 1 + gamma, g1)"
    by simp
  then have ar: "autoregressive_sampling multinomial prefix model gamma temperature top_k top_p g
        = Inr (prefix @ ds, g1)"
    by (simp add: autoregressive_sampling_def)
  from n pos len have "nat (n + 1) = length (prefix @ ds)" by simp
  with r have "prefix' = (prefix @ ds) @ [t]" by simp
  then have "butlast prefix' = prefix @ ds" "length prefix' = length prefix + nat gamma + 1"
    using len by (simp_all add: butlast_append)
  with s n len ar show ?thesis by blast
qed

text \<open>
  C3 (amended). Let both models be the same function, whose logits at a position depend
  only on the tokens up to that position, and let every uniform draw be at most 1. Then
  every round that completes from a non-empty prefix accepts all \<open>gamma\<close> drafted tokens
  (the scan returns \<open>prefix_len + gamma - 1\<close>), these tokens are the ones
  \<open>autoregressive_sampling\<close> appends for \<open>N = gamma\<close> from the round's starting sequence
  and generator state, and one more token is appended. So the first \<open>gamma\<close> tokens that a
  run of \<open>speculative_sampling\<close> for \<open>max_len > 0\<close> appends are those of
  \<open>autoregressive_sampling\<close> for \<open>N = gamma\<close> from the same generator state.
\<close>

theorem identical_models_accept_all:
  "prefix \<noteq> [] \<and>
   (\<forall>xs ys i. i < length (model xs) \<longrightarrow>
      i < length (model (xs @ ys)) \<and> model (xs @ ys) ! i = model xs ! i) \<and>
   (\<forall>g. fst (rand g) \<le> 1) \<longrightarrow>
   (speculative_round multinomial rand model model gamma temperature top_k top_p prefix g
      = Inr (prefix', g') \<longrightarrow>
    (\<exists>ds g1 g2.
      length ds = nat gamma \<and>
      accept_loop rand (norm_logits (model (prefix @ ds)))
        (norm_logits (model (butlast (prefix @ ds)))) (prefix @ ds)
        (int (length prefix)) gamma 0 g1 = Inr (int (length prefix) + gamma - 1, g2) \<and>
      autoregressive_sampling multinomial prefix model gamma temperature top_k top_p g
        = Inr (prefix @ ds, g1) \<and>
      butlast prefix' = prefix @ ds \<and>
      length prefix' = length prefix + nat gamma + 1)) \<and>
   (0 < max_len \<and>
    speculative_sampling multinomial rand prefix model model max_len gamma temperature
      top_k top_p g = Inr (ys, gs) \<longrightarrow>
    (\<exists>g1. autoregressive_sampling multinomial prefix model gamma temperature top_k top_p g
            = Inr (take (length prefix + nat gamma) ys, g1)))"
  (is "?H \<longrightarrow> (?R \<longrightarrow> ?A) \<and> (?S \<longrightarrow> ?B)")
proof (intro impI conjI)
  assume h: ?H
  {
    assume ?R
    with h show ?A by (intro identical_models_round) simp_all
  }
  assume run: ?S
  then obtain k where loop: "speculative_loop multinomial rand model model gamma
     temperature top_k top_p (int (length prefix) + max_len) 0 prefix g = (Inr (ys, gs), k)"
    by (metis speculative_sampling_def prod.collapse)
  from run have lt: "int (length prefix) < int (length prefix) + max_len" by simp
  from loop lt obtain prefix1 g1' where
    r: "speculative_round multinomial rand model model gamma temperature top_k top_p
          prefix g = Inr (prefix1, g1')"
    and rest: "speculative_loop multinomial rand model model gamma temperature top_k top_p
          (int (length prefix) + max_len) (0 + 1) prefix1 g1' = (Inr (ys, gs), k)"
    by (auto simp: speculative_loop.simps [of multinomial rand model model gamma temperature
          top_k top_p "int (length prefix) + max_len" 0 prefix g] split: sum.splits)
  from h r obtain ds g1 where len: "length ds = nat gamma"
    and ar: "autoregressive_sampling multinomial prefix model gamma temperature top_k top_p g
        = Inr (prefix @ ds, g1)"
    and bl: "butlast prefix1 = prefix @ ds"
    and l1: "length prefix1 = length prefix + nat gamma + 1"
    using identical_models_round [of prefix model rand multinomial gamma temperature top_k
        top_p g prefix1 g1'] by auto
  from speculative_loop_result [OF rest] obtain ts where "ys = prefix1 @ ts" by blast
  with l1 have "take (length prefix + nat gamma) ys = butlast prefix1"
    by (simp add: butlast_conv_take)
  with ar bl show ?B by simp
qed

lemma tape_rand_le_1: "fst (tape_rand g) \<le> 1"
proof (cases g)
  case Nil
  then show ?thesis by (simp add: tape_rand_def)
next
  case (Cons k g')
  have "k mod 100 < 100" by simp
  then have "real (k mod 100) \<le> 100" by linarith
  with Cons show ?thesis by (simp add: tape_rand_def)
qed

lemma const_model_causal:
  "\<forall>xs ys i. i < length (const_model row xs) \<longrightarrow>
     i < length (const_model row (xs @ ys)) \<and>
     const_model row (xs @ ys) ! i = const_model row xs ! i"
  by (simp add: const_model_def nth_append)

text \<open>
  The dependence on earlier tokens only is needed: the draft probabilities come from the
  call made before the last drafted token was appended (line 106), the target
  probabilities from the call on the whole sequence (line 113). With \<open>length_model\<close> as
  both models the two differ at the compared position, and the drafted token is rejected.
\<close>

lemma identical_models_need_causality:
  "accept_loop tape_rand (norm_logits (length_model [1, 1])) (norm_logits (length_model [1]))
     [1, 1] 1 1 0 [90] = Inr (0, [])"
  by (simp add: accept_loop.simps norm_logits_def length_model_def softmax_def exp_logit_def
      item_at_def entry_at_def tensor_div_def tape_rand_def exp_minus)

theorem identical_models_accept_all_witness:
  "speculative_round tape_multinomial tape_rand (const_model [0, 0]) (const_model [0, 0])
     1 1 0 0 [1] [50, 0, 50] = Inr ([1, 1, 1], []) \<and>
   (\<exists>ds g1 g2.
      length ds = nat 1 \<and>
      accept_loop tape_rand (norm_logits (const_model [0, 0] ([1] @ ds)))
        (norm_logits (const_model [0, 0] (butlast ([1] @ ds)))) ([1] @ ds)
        (int (length [1::nat])) 1 0 g1 = Inr (int (length [1::nat]) + 1 - 1, g2) \<and>
      autoregressive_sampling tape_multinomial [1] (const_model [0, 0]) 1 1 0 0 [50, 0, 50]
        = Inr ([1] @ ds, g1) \<and>
      butlast [1, 1, 1] = [1] @ ds \<and>
      length [1, 1, 1::nat] = length [1::nat] + nat 1 + 1) \<and>
   speculative_sampling tape_multinomial tape_rand [1] (const_model [0, 0]) (const_model [0, 0])
     1 1 1 0 0 [50, 0, 50] = Inr ([1, 1, 1], []) \<and>
   (\<exists>g1. autoregressive_sampling tape_multinomial [1] (const_model [0, 0]) 1 1 0 0 [50, 0, 50]
           = Inr (take (length [1::nat] + nat 1) [1, 1, 1], g1))"
proof -
  have r: "speculative_round tape_multinomial tape_rand (const_model [0, 0]) (const_model [0, 0])
     1 1 0 0 [1] [50, 0, 50] = Inr ([1, 1, 1], [])"
    by (simp add: round_eval)
  then have s: "speculative_sampling tape_multinomial tape_rand [1] (const_model [0, 0])
     (const_model [0, 0]) 1 1 1 0 0 [50, 0, 50] = Inr ([1, 1, 1], [])"
    by (simp add: speculative_sampling_def speculative_loop.simps)
  have h: "[1::nat] \<noteq> [] \<and>
   (\<forall>xs ys i. i < length (const_model [0, 0] xs) \<longrightarrow>
      i < length (const_model [0, 0] (xs @ ys)) \<and>
      const_model [0, 0] (xs @ ys) ! i = const_model [0, 0] xs ! i) \<and>
   (\<forall>g. fst (tape_rand g) \<le> 1)"
    using const_model_causal [of "[0, 0]"] tape_rand_le_1 by simp
  note th = identical_models_accept_all [where prefix = "[1]" and model = "const_model [0, 0]"
      and rand = tape_rand and multinomial = tape_multinomial and gamma = 1
      and temperature = 1 and top_k = 0 and top_p = 0 and g = "[50, 0, 50]"
      and prefix' = "[1, 1, 1]" and g' = "[]" and max_len = 1 and ys = "[1, 1, 1]"
      and gs = "[]", THEN mp, OF h]
  have pos: "(0::int) < 1" by simp
  show ?thesis
    by (intro conjI mp [OF conjunct1 [OF th]] mp [OF conjunct2 [OF th]] r s pos)
qed

text \<open>
  C3 as stated fails. Both models return the same logits on every input (three tokens,
  all logits 0), one token is drafted per round and two new tokens are asked for; from
  the same generator state \<open>speculative_sampling\<close> returns \<open>[1, 1, 1]\<close> and
  \<open>autoregressive_sampling\<close> returns \<open>[1, 1, 2]\<close>: the second number of the generator
  is the uniform draw of the acceptance test in the one and the draw of the second token
  in the other. Every distribution is (1/3, 1/3, 1/3), so a draw of 0.4 is token 1 and a
  draw of 0.9 is token 2. In \<open>speculative_sampling\<close>, 0.4 drafts token 1, 0.9 is the
  uniform draw of the test 0.9 > (1/3) / (1/3), which accepts, and 0.4 draws the next
  token, 1. In \<open>autoregressive_sampling\<close>, 0.4 draws token 1 and 0.9 draws token 2.
\<close>

theorem identical_models_outputs_differ:
  "speculative_sampling tape_multinomial tape_rand [1] (const_model [0, 0, 0])
     (const_model [0, 0, 0]) 2 1 1 0 0 [40, 90, 40] = Inr ([1, 1, 1], []) \<and>
   autoregressive_sampling tape_multinomial [1] (const_model [0, 0, 0]) 2 1 0 0 [40, 90, 40]
     = Inr ([1, 1, 2], [40])"
proof -
  have "speculative_round tape_multinomial tape_rand (const_model [0, 0, 0])
     (const_model [0, 0, 0]) 1 1 0 0 [1] [40, 90, 40] = Inr ([1, 1, 1], [])"
    by (simp add: round_eval)
  then have "speculative_sampling tape_multinomial tape_rand [1] (const_model [0, 0, 0])
     (const_model [0, 0, 0]) 2 1 1 0 0 [40, 90, 40] = Inr ([1, 1, 1], [])"
    by (simp add: speculative_sampling_def speculative_loop.simps)
  moreover have "autoregressive_sampling tape_multinomial [1] (const_model [0, 0, 0]) 2 1 0 0
     [40, 90, 40] = Inr ([1, 1, 2], [40])"
    by (simp add: autoregressive_sampling_def ar_loop.simps model_eval)
  ultimately show ?thesis by simp
qed

end
